theory Spec2Isabelle
  imports Complex_Main "HOL-Library.Sublist"
begin

section \<open>Tabular SARSA: an embedding of \<^verbatim>\<open>rlsuite/algos/sarsa.py\<close>\<close>

text \<open>
  The function \<^verbatim>\<open>sarsa\<close> is embedded statement by statement. Its numbers are numpy
  floats; in the embedding of the run they are real numbers, so the arithmetic there is
  exact (rounding, NaN and infinities are outside that model). For the one property that
  rounding decides, the update as a step toward the target, line 90 is embedded a second
  time with the rounding written out. The two tables are
  lists of rows. States and actions are natural numbers: the environment hands out indices
  \<open>0..n-1\<close>, and an index beyond a table raises \<^verbatim>\<open>IndexError\<close> as numpy does.

  Three collaborators are not part of the repository and are taken as parameters:
  \<^item> the environment (\<^verbatim>\<open>env_fn()\<close>, a gym-style object), as a record of its operations
    over an environment state of any type;
  \<^item> numpy's global random generator, as a tape of natural numbers: every call of
    \<^verbatim>\<open>np.random.choice\<close> consumes one entry of the tape, and the entry selects one of
    the outcomes the call can have. Quantifying over tapes is quantifying over every
    outcome of the random source;
  \<^item> the summary writer, the logger and the console, whose calls have no influence on
    the tables; only the two scalars reported per episode are recorded.

  Calls to the environment, updates of the Q-table, derivations of a policy row and the
  reported scalars are recorded, in program order, in a trace.
\<close>

subsection \<open>Errors, events, collaborators\<close>

datatype error =
  AssertionError string
  | ZeroDivisionError
  | IndexError
  | ValueError

datatype event =
  EnvCreate
  | EnvSeed int
  | EnvReset
  | EnvStep nat
  | EnvClose
  | QUpdate nat nat
  | PolicyDerive nat
  | Scalar string real nat

type_synonym table = "real list list"

text \<open>A failed run keeps the trace of what had happened before the exception.\<close>

type_synonym 'a result = "(error \<times> event list) + 'a"

text \<open>
  The environment object: \<^verbatim>\<open>observation_space.n\<close>, \<^verbatim>\<open>action_space.n\<close>, \<^verbatim>\<open>seed\<close>,
  \<^verbatim>\<open>reset\<close> and \<^verbatim>\<open>step\<close> (which returns \<^verbatim>\<open>next_state, reward, done\<close>; the info
  dictionary is dropped by the caller).
\<close>

record 'e env_ops =
  obs_n :: nat
  act_n :: nat
  env_init :: 'e
  env_seed :: "int \<Rightarrow> 'e \<Rightarrow> 'e"
  env_reset :: "'e \<Rightarrow> nat \<times> 'e"
  env_step :: "nat \<Rightarrow> 'e \<Rightarrow> (nat \<times> real \<times> bool) \<times> 'e"

subsection \<open>The random source\<close>

text \<open>One draw takes the next entry of the tape; an exhausted tape delivers 0 from then on.\<close>

definition draw :: "nat list \<Rightarrow> nat \<times> nat list" where
  "draw t = (case t of [] \<Rightarrow> (0, []) | k # ks \<Rightarrow> (k, ks))"

text \<open>
  \<^verbatim>\<open>np.random.choice(n, p=p)\<close>: numpy raises \<^verbatim>\<open>ValueError\<close> when \<open>n\<close> is zero, when
  \<open>p\<close> has not \<open>n\<close> entries, has a negative entry or does not sum to one; otherwise it
  returns an index of positive probability. The tape entry selects which.
\<close>

definition choice_p :: "nat \<Rightarrow> real list \<Rightarrow> nat list \<Rightarrow> error + (nat \<times> nat list)" where
  "choice_p n p t =
     (if n = 0 \<or> length p \<noteq> n \<or> (\<exists>x \<in> set p. x < 0) \<or> sum_list p \<noteq> 1 then Inl ValueError
      else let support = filter (\<lambda>a. 0 < p ! a) [0..<n];
               (k, t') = draw t
           in Inr (support ! (k mod length support), t'))"

text \<open>
  \<^verbatim>\<open>np.random.choice(arr)\<close>: numpy raises \<^verbatim>\<open>ValueError\<close> on an empty array and
  otherwise returns one of its elements. The tape entry selects which.
\<close>

definition choice_arr :: "nat list \<Rightarrow> nat list \<Rightarrow> error + (nat \<times> nat list)" where
  "choice_arr arr t =
     (if arr = [] then Inl ValueError
      else let (k, t') = draw t in Inr (arr ! (k mod length arr), t'))"

subsection \<open>The state of a run\<close>

text \<open>
  The local variables of \<^verbatim>\<open>sarsa\<close> that live across statements. \<open>pi_tab\<close> is the
  source's \<^verbatim>\<open>pi\<close> and \<open>is_done\<close> its \<^verbatim>\<open>done\<close>.
\<close>

record 'e run_state =
  env :: 'e
  rng :: "nat list"
  Q :: table
  pi_tab :: table
  state :: nat
  action :: nat
  is_done :: bool
  episode_length :: nat
  episode_return :: real
  trace :: "event list"

record params =
  alpha :: real
  epsilon :: real
  gamma :: real

subsection \<open>Parameter validation (lines 34-38)\<close>

definition validate :: "real \<Rightarrow> real \<Rightarrow> real \<Rightarrow> int \<Rightarrow> error option" where
  "validate al ep ga num_episodes =
     (if \<not> (al > 0 \<and> ep \<le> 1) then Some (AssertionError ''epsilon must be in (0, 1]'')
      else if \<not> (ep \<ge> 0 \<and> ep \<le> 1) then Some (AssertionError ''epsilon must be in [0, 1]'')
      else if \<not> (ga \<ge> 0 \<and> ga \<le> 1) then Some (AssertionError ''gamma must be in [0, 1]'')
      else if \<not> (num_episodes > 0) then Some (AssertionError ''num_episodes must be positive'')
      else None)"

subsection \<open>One iteration of the while loop (lines 83-107)\<close>

text \<open>Line 90: \<^verbatim>\<open>Q[state, action] += alpha * (target - Q[state, action])\<close>, on one entry.\<close>

definition td_update :: "real \<Rightarrow> real \<Rightarrow> real \<Rightarrow> real" where
  "td_update al q target = q + al * (target - q)"

text \<open>Line 93: \<^verbatim>\<open>np.where(Q[state] == Q[state].max())[0]\<close>.\<close>

definition best_actions :: "real list \<Rightarrow> nat list" where
  "best_actions row = filter (\<lambda>a. row ! a = Max (set row)) [0..<length row]"

text \<open>
  Lines 95-99: the loop over \<^verbatim>\<open>np.arange(num_actions)\<close> that writes the entries of
  \<^verbatim>\<open>pi[state]\<close> one by one.
\<close>

fun policy_loop :: "real \<Rightarrow> nat \<Rightarrow> nat \<Rightarrow> nat \<Rightarrow> nat list \<Rightarrow> table \<Rightarrow> error + table" where
  "policy_loop ep num_actions s best_action [] p = Inr p"
| "policy_loop ep num_actions s best_action (a # as) p =
     (if s < length p \<and> a < length (p ! s)
      then policy_loop ep num_actions s best_action as
             (p[s := (p ! s)[a := (if a = best_action
                                   then 1 - ep + ep / real num_actions
                                   else ep / real num_actions)]])
      else Inl IndexError)"

definition loop_body :: "'e env_ops \<Rightarrow> params \<Rightarrow> 'e run_state \<Rightarrow> 'e run_state result" where
  "loop_body E P c =
     (case env_step E (action c) (env c) of ((next_state, reward, d), e') \<Rightarrow>
      (let tr1 = trace c @ [EnvStep (action c)] in
       if \<not> state c < length (pi_tab c) then Inl (IndexError, tr1)
       else (case choice_p (act_n E) (pi_tab c ! state c) (rng c) of
         Inl err \<Rightarrow> Inl (err, tr1)
       | Inr (next_action, r1) \<Rightarrow>
         (if \<not> (next_state < length (Q c) \<and> next_action < length (Q c ! next_state))
          then Inl (IndexError, tr1)
          else (let target = reward + gamma P * Q c ! next_state ! next_action in
           if \<not> (state c < length (Q c) \<and> action c < length (Q c ! state c))
           then Inl (IndexError, tr1)
           else (let Q' = (Q c)[state c := (Q c ! state c)
                           [action c := td_update (alpha P) (Q c ! state c ! action c) target]];
                     tr2 = tr1 @ [QUpdate (state c) (action c)]
            in (case choice_arr (best_actions (Q' ! state c)) r1 of
              Inl err \<Rightarrow> Inl (err, tr2)
            | Inr (best_action, r2) \<Rightarrow>
              (let tr3 = tr2 @ [PolicyDerive (state c)] in
               (case policy_loop (epsilon P) (act_n E) (state c) best_action
                                 [0..<act_n E] (pi_tab c) of
                 Inl err \<Rightarrow> Inl (err, tr3)
               | Inr pi' \<Rightarrow>
                 Inr (c\<lparr>env := e', rng := r2, Q := Q', pi_tab := pi',
                        state := next_state, action := next_action, is_done := d,
                        episode_length := episode_length c + 1,
                        episode_return := episode_return c + reward,
                        trace := tr3\<rparr>))))))))))"

subsection \<open>The while loop, an episode, the run\<close>

text \<open>
  Lines 81-107. The loop ends when the environment says so and not before, so it is a
  partial function: \<open>None\<close> is the loop that never ends.
\<close>

partial_function (option) while_loop ::
  "'e env_ops \<Rightarrow> params \<Rightarrow> 'e run_state \<Rightarrow> ('e run_state result) option" where
  [code]: "while_loop E P c =
     (if \<not> is_done c
      then (case loop_body E P c of
              Inl err \<Rightarrow> Some (Inl err)
            | Inr c' \<Rightarrow> while_loop E P c')
      else Some (Inr c))"

text \<open>Lines 74-80: the statistics are reset, the environment is reset, the first action is sampled.\<close>

definition begin_episode :: "'e env_ops \<Rightarrow> 'e run_state \<Rightarrow> 'e run_state result" where
  "begin_episode E c =
     (case env_reset E (env c) of (s, e') \<Rightarrow>
      (let tr1 = trace c @ [EnvReset] in
       if \<not> s < length (pi_tab c) then Inl (IndexError, tr1)
       else (case choice_p (act_n E) (pi_tab c ! s) (rng c) of
         Inl err \<Rightarrow> Inl (err, tr1)
       | Inr (a, r1) \<Rightarrow>
         Inr (c\<lparr>env := e', rng := r1, state := s, action := a, is_done := False,
                episode_length := 0, episode_return := 0, trace := tr1\<rparr>))))"

text \<open>Lines 110-112: the two scalars of episode \<open>i\<close>.\<close>

definition report :: "nat \<Rightarrow> 'e run_state \<Rightarrow> 'e run_state" where
  "report i c =
     c\<lparr>trace := trace c @ [Scalar ''episode_length'' (real (episode_length c)) i,
                            Scalar ''episode_return'' (episode_return c) i]\<rparr>"

definition run_episode ::
  "'e env_ops \<Rightarrow> params \<Rightarrow> nat \<Rightarrow> 'e run_state \<Rightarrow> ('e run_state result) option" where
  "run_episode E P i c =
     (case begin_episode E c of
        Inl err \<Rightarrow> Some (Inl err)
      | Inr c1 \<Rightarrow>
        (case while_loop E P c1 of
           None \<Rightarrow> None
         | Some (Inl err) \<Rightarrow> Some (Inl err)
         | Some (Inr c2) \<Rightarrow> Some (Inr (report i c2))))"

text \<open>Line 68: \<^verbatim>\<open>for i in range(num_episodes)\<close>.\<close>

fun episodes ::
  "'e env_ops \<Rightarrow> params \<Rightarrow> nat list \<Rightarrow> 'e run_state \<Rightarrow> ('e run_state result) option" where
  "episodes E P [] c = Some (Inr c)"
| "episodes E P (i # is) c =
     (case run_episode E P i c of
        None \<Rightarrow> None
      | Some (Inl err) \<Rightarrow> Some (Inl err)
      | Some (Inr c') \<Rightarrow> episodes E P is c')"

text \<open>
  Lines 53-65: the environment is created and seeded, the generator is seeded (\<open>rnd\<close>
  gives the tape the seed stands for), the policy is filled with \<^verbatim>\<open>1 / num_actions\<close>
  (Python raises \<^verbatim>\<open>ZeroDivisionError\<close> for no action) and the Q-table with zeros.
\<close>

definition initialise :: "'e env_ops \<Rightarrow> (int \<Rightarrow> nat list) \<Rightarrow> int \<Rightarrow> 'e run_state result" where
  "initialise E rnd seed =
     (let num_states = obs_n E; num_actions = act_n E;
          tr = [EnvCreate, EnvSeed seed]
      in if num_actions = 0 then Inl (ZeroDivisionError, tr)
         else Inr \<lparr>env = env_seed E seed (env_init E), rng = rnd seed,
                   Q = replicate num_states (replicate num_actions 0),
                   pi_tab = replicate num_states (replicate num_actions (1 / real num_actions)),
                   state = 0, action = 0, is_done = False,
                   episode_length = 0, episode_return = 0, trace = tr\<rparr>)"

text \<open>The function \<^verbatim>\<open>sarsa\<close>, from its first line to \<^verbatim>\<open>env.close()\<close>.\<close>

definition sarsa ::
  "(unit \<Rightarrow> 'e env_ops) \<Rightarrow> (int \<Rightarrow> nat list) \<Rightarrow> real \<Rightarrow> real \<Rightarrow> real \<Rightarrow> int \<Rightarrow> int
     \<Rightarrow> ('e run_state result) option" where
  "sarsa env_fn rnd al ep ga num_episodes seed =
     (case validate al ep ga num_episodes of
        Some err \<Rightarrow> Some (Inl (err, []))
      | None \<Rightarrow>
        let E = env_fn ();
            P = \<lparr>alpha = al, epsilon = ep, gamma = ga\<rparr>
        in (case initialise E rnd seed of
             Inl err \<Rightarrow> Some (Inl err)
           | Inr c0 \<Rightarrow>
             (case episodes E P [0..<nat num_episodes] c0 of
                None \<Rightarrow> None
              | Some (Inl err) \<Rightarrow> Some (Inl err)
              | Some (Inr c) \<Rightarrow> Some (Inr (c\<lparr>trace := trace c @ [EnvClose]\<rparr>)))))"

subsection \<open>Auxiliary notions used in the statements\<close>


subsection \<open>A deterministic environment and sample states\<close>

text \<open>
  Modelled from the spec: the two-state, two-action test environment of its end-to-end
  scenario, which is not part of the source. Action 0 taken in state 0 pays 1 and leads
  to the terminal state 1; every other transition pays 0 and stays; the environment
  reports termination after one transition. The environment state is the current state.
\<close>

definition fixture_env :: "nat env_ops" where
  "fixture_env =
     \<lparr>obs_n = 2, act_n = 2, env_init = 0,
      env_seed = (\<lambda>_ e. e),
      env_reset = (\<lambda>_. (0, 0)),
      env_step = (\<lambda>a s. if s = 0 \<and> a = 0 then ((1, 1, True), 1) else ((s, 0, True), s))\<rparr>"

definition fixture_params :: params where
  "fixture_params = \<lparr>alpha = 1 / 2, epsilon = 0, gamma = 1\<rparr>"

text \<open>
  A state at the head of the while loop, in which the two policy rows differ, and the
  state one iteration later.
\<close>

definition sample_state :: "nat run_state" where
  "sample_state =
     \<lparr>env = 0, rng = [0, 1], Q = [[0, 0], [0, 0]], pi_tab = [[1, 0], [0, 1]],
      state = 0, action = 0, is_done = False, episode_length = 0, episode_return = 0,
      trace = [EnvCreate, EnvSeed 0, EnvReset]\<rparr>"

definition sample_state' :: "nat run_state" where
  "sample_state' =
     \<lparr>env = 1, rng = [], Q = [[1 / 2, 0], [0, 0]], pi_tab = [[1, 0], [0, 1]],
      state = 1, action = 0, is_done = True, episode_length = 1, episode_return = 1,
      trace = [EnvCreate, EnvSeed 0, EnvReset, EnvStep 0, QUpdate 0 0, PolicyDerive 0]\<rparr>"

text \<open>
  A state whose update leaves both actions of state 0 tied, so that the greedy action is
  the random source's choice, and the state one iteration later.
\<close>

definition tie_params :: params where
  "tie_params = \<lparr>alpha = 1 / 2, epsilon = 1 / 2, gamma = 1\<rparr>"

definition tie_state :: "nat run_state" where
  "tie_state =
     \<lparr>env = 0, rng = [0, 1], Q = [[0, 0], [0, 0]], pi_tab = [[1 / 2, 1 / 2], [1 / 2, 1 / 2]],
      state = 0, action = 1, is_done = False, episode_length = 0, episode_return = 0,
      trace = [EnvCreate, EnvSeed 0, EnvReset]\<rparr>"

definition tie_state' :: "nat run_state" where
  "tie_state' =
     \<lparr>env = 0, rng = [], Q = [[0, 0], [0, 0]], pi_tab = [[1 / 4, 3 / 4], [1 / 2, 1 / 2]],
      state = 0, action = 0, is_done = True, episode_length = 1, episode_return = 0,
      trace = [EnvCreate, EnvSeed 0, EnvReset, EnvStep 1, QUpdate 0 1, PolicyDerive 0]\<rparr>"

subsection \<open>The trace of an outcome, the points of a run\<close>

text \<open>The trace a run leaves behind, whether it ended normally or with an exception.\<close>

definition result_trace :: "'e run_state result \<Rightarrow> event list" where
  "result_trace r = (case r of Inl (err, tr) \<Rightarrow> tr | Inr c \<Rightarrow> trace c)"

text \<open>The states whose Q-row has been written, in the order of the writes.\<close>

definition updated_states :: "event list \<Rightarrow> nat list" where
  "updated_states tr = concat (map (\<lambda>e. case e of QUpdate s a \<Rightarrow> [s] | _ \<Rightarrow> []) tr)"

text \<open>
  The points of a run: the state after initialisation, after the start of an episode,
  after each iteration of the while loop and after the report of an episode. These are
  the states between the operations of the run; the policy is read (lines 79 and 86)
  in such states only. The derivation of one row (lines 93-99) counts as one operation.
\<close>

inductive_set points :: "'e env_ops \<Rightarrow> params \<Rightarrow> (int \<Rightarrow> nat list) \<Rightarrow> int \<Rightarrow> 'e run_state set"
  for E :: "'e env_ops" and P :: params and rnd :: "int \<Rightarrow> nat list" and seed :: int where
  initialised: "initialise E rnd seed = Inr c \<Longrightarrow> c \<in> points E P rnd seed"
| episode_begun: "c \<in> points E P rnd seed \<Longrightarrow> begin_episode E c = Inr c' \<Longrightarrow> c' \<in> points E P rnd seed"
| iterated: "c \<in> points E P rnd seed \<Longrightarrow> \<not> is_done c \<Longrightarrow> loop_body E P c = Inr c'
     \<Longrightarrow> c' \<in> points E P rnd seed"
| reported: "c \<in> points E P rnd seed \<Longrightarrow> is_done c \<Longrightarrow> report i c \<in> points E P rnd seed"

text \<open>
  What holds at every point: both tables have one row per state and one column per
  action, every policy row is a distribution within the epsilon-greedy bounds, and the
  row of a state that was never updated is still uniform.
\<close>

definition run_inv :: "'e env_ops \<Rightarrow> params \<Rightarrow> 'e run_state \<Rightarrow> bool" where
  "run_inv E P c \<longleftrightarrow>
     0 < act_n E \<and>
     length (Q c) = obs_n E \<and> (\<forall>row \<in> set (Q c). length row = act_n E) \<and>
     length (pi_tab c) = obs_n E \<and>
     (\<forall>s < obs_n E.
        length (pi_tab c ! s) = act_n E \<and>
        sum_list (pi_tab c ! s) = 1 \<and>
        (\<forall>a < act_n E. epsilon P / real (act_n E) \<le> pi_tab c ! s ! a \<and>
                        pi_tab c ! s ! a \<le> 1 - epsilon P + epsilon P / real (act_n E)) \<and>
        (s \<notin> set (updated_states (trace c)) \<longrightarrow>
           pi_tab c ! s = replicate (act_n E) (1 / real (act_n E))))"

text \<open>The state right after initialisation against the test environment, with tape \<open>t\<close>.\<close>

definition fixture_start :: "nat list \<Rightarrow> int \<Rightarrow> nat run_state" where
  "fixture_start t seed =
     \<lparr>env = 0, rng = t, Q = [[0, 0], [0, 0]], pi_tab = [[1 / 2, 1 / 2], [1 / 2, 1 / 2]],
      state = 0, action = 0, is_done = False, episode_length = 0, episode_return = 0,
      trace = [EnvCreate, EnvSeed seed]\<rparr>"

text \<open>
  The outcomes of one episode against the test environment with \<open>alpha = 1/2\<close>,
  \<open>gamma = 1\<close>, \<open>epsilon = 0\<close>: when the first action drawn is 0, and when it is 1.
\<close>

definition rewarded_run :: "nat run_state" where
  "rewarded_run =
     \<lparr>env = 1, rng = [], Q = [[1 / 2, 0], [0, 0]], pi_tab = [[1, 0], [1 / 2, 1 / 2]],
      state = 1, action = 0, is_done = True, episode_length = 1, episode_return = 1,
      trace = [EnvCreate, EnvSeed 0, EnvReset, EnvStep 0, QUpdate 0 0, PolicyDerive 0,
               Scalar ''episode_length'' 1 0, Scalar ''episode_return'' 1 0, EnvClose]\<rparr>"

definition unrewarded_run :: "nat run_state" where
  "unrewarded_run =
     \<lparr>env = 0, rng = [], Q = [[0, 0], [0, 0]], pi_tab = [[1, 0], [1 / 2, 1 / 2]],
      state = 0, action = 0, is_done = True, episode_length = 1, episode_return = 0,
      trace = [EnvCreate, EnvSeed 0, EnvReset, EnvStep 1, QUpdate 0 1, PolicyDerive 0,
               Scalar ''episode_length'' 1 0, Scalar ''episode_return'' 0 0, EnvClose]\<rparr>"

text \<open>The same episode with \<open>alpha = 2\<close>: the update overshoots the target 1.\<close>

definition overshoot_run :: "nat run_state" where
  "overshoot_run =
     \<lparr>env = 1, rng = [], Q = [[2, 0], [0, 0]], pi_tab = [[1, 0], [1 / 2, 1 / 2]],
      state = 1, action = 0, is_done = True, episode_length = 1, episode_return = 1,
      trace = [EnvCreate, EnvSeed 0, EnvReset, EnvStep 0, QUpdate 0 0, PolicyDerive 0,
               Scalar ''episode_length'' 1 0, Scalar ''episode_return'' 1 0, EnvClose]\<rparr>"

subsection \<open>Line 90 with the rounding written out\<close>

text \<open>
  Line 90 as float64 arithmetic evaluates it: the difference, the product and the sum
  are each the exact result rounded to a stored number. \<open>fl\<close> is that rounding; with
  the identity for \<open>fl\<close> this is \<open>td_update\<close>.
\<close>

definition fl_update :: "(real \<Rightarrow> real) \<Rightarrow> real \<Rightarrow> real \<Rightarrow> real \<Rightarrow> real" where
  "fl_update fl al q target = fl (q + fl (al * fl (target - q)))"

text \<open>None of the three operations of line 90 rounds.\<close>

definition exact_at :: "(real \<Rightarrow> real) \<Rightarrow> real \<Rightarrow> real \<Rightarrow> real \<Rightarrow> bool" where
  "exact_at fl al q target \<longleftrightarrow>
     fl (target - q) = target - q \<and>
     fl (al * (target - q)) = al * (target - q) \<and>
     fl (q + al * (target - q)) = q + al * (target - q)"

text \<open>
  The rounding of IEEE 754 binary64, to nearest with ties to even, which numpy's float64
  uses: a significand of 53 bits, and a spacing that stays at \<open>2^-1074\<close> below
  \<open>2^-1022\<close>. Overflow to infinity is not modelled. \<open>exponent a\<close> is the \<open>e\<close> with
  \<open>2^e \<le> a < 2^(e+1)\<close>, found by halving or doubling.
\<close>

function exp_up :: "real \<Rightarrow> int" where
  "exp_up x = (if 2 \<le> x then exp_up (x / 2) + 1 else 0)"
  by pat_completeness auto
termination
proof (relation "measure (\<lambda>x. nat \<lfloor>x\<rfloor>)")
  show "wf (measure (\<lambda>x. nat \<lfloor>x\<rfloor>))" by simp
next
  fix x :: real assume "2 \<le> x"
  then have pos: "0 < \<lfloor>x\<rfloor>" by (simp add: less_floor_iff)
  have "\<lfloor>x / 2\<rfloor> = \<lfloor>x\<rfloor> div 2"
    using floor_divide_real_eq_div [of 2 x] by simp
  moreover from pos have "\<lfloor>x\<rfloor> div 2 < \<lfloor>x\<rfloor>" by (rule int_div_less_self) simp
  ultimately show "(x / 2, x) \<in> measure (\<lambda>x. nat \<lfloor>x\<rfloor>)" using pos by simp
qed

function exp_down :: "real \<Rightarrow> int" where
  "exp_down x = (if 0 < x \<and> x < 1 then exp_down (2 * x) - 1 else 0)"
  by pat_completeness auto
termination
proof (relation "measure (\<lambda>x. nat \<lfloor>1 / x\<rfloor>)")
  show "wf (measure (\<lambda>x. nat \<lfloor>1 / x\<rfloor>))" by simp
next
  fix x :: real assume "0 < x \<and> x < 1"
  then have "1 \<le> 1 / x" by simp
  then have pos: "0 < \<lfloor>1 / x\<rfloor>" by (simp add: less_floor_iff)
  have "\<lfloor>1 / x / 2\<rfloor> = \<lfloor>1 / x\<rfloor> div 2"
    using floor_divide_real_eq_div [of 2 "1 / x"] by simp
  moreover have "1 / x / 2 = 1 / (2 * x)" by simp
  ultimately have "\<lfloor>1 / (2 * x)\<rfloor> = \<lfloor>1 / x\<rfloor> div 2" by (simp only:)
  moreover from pos have "\<lfloor>1 / x\<rfloor> div 2 < \<lfloor>1 / x\<rfloor>" by (rule int_div_less_self) simp
  ultimately show "(2 * x, x) \<in> measure (\<lambda>x. nat \<lfloor>1 / x\<rfloor>)" using pos by simp
qed

text \<open>The two equations are unfolded on demand only.\<close>

declare exp_up.simps [simp del] exp_down.simps [simp del]

definition exponent :: "real \<Rightarrow> int" where
  "exponent a = (if 1 \<le> a then exp_up a else exp_down a)"

definition pow2 :: "int \<Rightarrow> real" where
  "pow2 k = (if 0 \<le> k then 2 ^ nat k else 1 / 2 ^ nat (- k))"

text \<open>The nearest integer, the even one of the two when \<open>x\<close> lies half way.\<close>

definition round_even :: "real \<Rightarrow> int" where
  "round_even x =
     (let f = \<lfloor>x\<rfloor>; r = x - of_int f
      in if r < 1 / 2 then f else if 1 / 2 < r then f + 1 else if even f then f else f + 1)"

definition round64 :: "real \<Rightarrow> real" where
  "round64 x =
     (if x = 0 then 0
      else let e = max (exponent \<bar>x\<bar>) (- 1022); q = pow2 (e - 52)
           in of_int (round_even (x / q)) * q)"

section \<open>Properties\<close>

subsection \<open>What a successful step did\<close>

text \<open>
  An iteration that raises nothing went through every statement of the loop body; this
  rule names the values it met on the way.
\<close>

lemma loop_body_Inr:
  assumes "loop_body E P c = Inr c'"
  obtains next_state reward d e' next_action r1 best_action r2 pi' where
    "env_step E (action c) (env c) = ((next_state, reward, d), e')"
    "state c < length (pi_tab c)"
    "choice_p (act_n E) (pi_tab c ! state c) (rng c) = Inr (next_action, r1)"
    "next_state < length (Q c)" "next_action < length (Q c ! next_state)"
    "state c < length (Q c)" "action c < length (Q c ! state c)"
    "choice_arr (best_actions ((Q c)[state c := (Q c ! state c)
        [action c := td_update (alpha P) (Q c ! state c ! action c)
           (reward + gamma P * Q c ! next_state ! next_action)]] ! state c)) r1
       = Inr (best_action, r2)"
    "policy_loop (epsilon P) (act_n E) (state c) best_action [0..<act_n E] (pi_tab c) = Inr pi'"
    "c' = c\<lparr>env := e', rng := r2,
            Q := (Q c)[state c := (Q c ! state c)
              [action c := td_update (alpha P) (Q c ! state c ! action c)
                 (reward + gamma P * Q c ! next_state ! next_action)]],
            pi_tab := pi',
            state := next_state, action := next_action, is_done := d,
            episode_length := episode_length c + 1,
            episode_return := episode_return c + reward,
            trace := trace c @ [EnvStep (action c), QUpdate (state c) (action c), PolicyDerive (state c)]\<rparr>"
  using assms unfolding loop_body_def
  by (auto simp: Let_def split: prod.splits if_splits sum.splits)

lemma loop_body_length:
  "loop_body E P c = Inr c' \<Longrightarrow> episode_length c' = episode_length c + 1"
  by (erule loop_body_Inr) simp

text \<open>The same for the start of an episode.\<close>

lemma begin_episode_Inr:
  assumes "begin_episode E c = Inr c1"
  obtains s e' a r1 where
    "env_reset E (env c) = (s, e')"
    "s < length (pi_tab c)"
    "choice_p (act_n E) (pi_tab c ! s) (rng c) = Inr (a, r1)"
    "c1 = c\<lparr>env := e', rng := r1, state := s, action := a, is_done := False,
            episode_length := 0, episode_return := 0, trace := trace c @ [EnvReset]\<rparr>"
  using assms unfolding begin_episode_def
  by (auto simp: Let_def split: prod.splits if_splits sum.splits)

subsection \<open>The loop that writes a policy row\<close>

lemma policy_loop_frame:
  "policy_loop ep n s b as p = Inr p' \<Longrightarrow>
     length p' = length p \<and> (\<forall>s'. s' \<noteq> s \<longrightarrow> p' ! s' = p ! s')"
  by (induction as arbitrary: p) (auto split: if_splits)

lemma policy_loop_row:
  "policy_loop ep n s b as p = Inr p' \<Longrightarrow>
     length (p' ! s) = length (p ! s) \<and>
     (\<forall>a. p' ! s ! a =
        (if a \<in> set as \<and> a < length (p ! s)
         then (if a = b then 1 - ep + ep / real n else ep / real n)
         else p ! s ! a))"
proof (induction as arbitrary: p)
  case Nil
  then show ?case by simp
next
  case (Cons a as)
  from Cons.prems have ok: "s < length p" "a < length (p ! s)"
    and rec: "policy_loop ep n s b as
       (p[s := (p ! s)[a := (if a = b then 1 - ep + ep / real n else ep / real n)]]) = Inr p'"
    by (auto split: if_splits)
  from Cons.IH [OF rec] ok show ?case
    by (auto simp: nth_list_update)
qed

lemma policy_loop_in_range:
  "policy_loop ep n s b as p = Inr p' \<Longrightarrow> \<forall>a \<in> set as. a < length (p ! s)"
proof (induction as arbitrary: p)
  case Nil
  then show ?case by simp
next
  case (Cons a as)
  from Cons.prems have ok: "s < length p" "a < length (p ! s)"
    and rec: "policy_loop ep n s b as
       (p[s := (p ! s)[a := (if a = b then 1 - ep + ep / real n else ep / real n)]]) = Inr p'"
    by (auto split: if_splits)
  from Cons.IH [OF rec] ok show ?case by simp
qed

lemma policy_loop_entries:
  assumes "policy_loop ep n s b [0..<n] p = Inr p'" and "a < n"
  shows "p' ! s ! a = (if a = b then 1 - ep + ep / real n else ep / real n)"
proof -
  from policy_loop_in_range [OF assms(1)] assms(2) have "a < length (p ! s)" by simp
  with policy_loop_row [OF assms(1)] assms(2) show ?thesis by simp
qed

subsection \<open>The random source and the tied actions\<close>

lemma choice_arr_member:
  "choice_arr arr t = Inr (x, t') \<Longrightarrow> x \<in> set arr"
  by (auto simp: choice_arr_def Let_def split: if_splits prod.splits)

text \<open>Every element of the array is the outcome of the choice for some tape.\<close>

lemma choice_arr_covers:
  assumes "b \<in> set arr"
  shows "\<exists>k. choice_arr arr (k # t) = Inr (b, t)"
proof -
  from assms obtain i where i: "i < length arr" "arr ! i = b"
    by (auto simp: in_set_conv_nth)
  then have "arr \<noteq> []" by auto
  with i have "choice_arr arr (i # t) = Inr (b, t)"
    by (simp add: choice_arr_def draw_def)
  then show ?thesis ..
qed

lemma choice_arr_total: "arr \<noteq> [] \<Longrightarrow> \<exists>a t'. choice_arr arr t = Inr (a, t')"
  by (cases "draw t") (simp add: choice_arr_def)

lemma best_actions_set:
  "set (best_actions row) = {a. a < length row \<and> row ! a = Max (set row)}"
  by (auto simp: best_actions_def)

text \<open>
  A row that is not empty has a largest entry, so the choice among the tied actions (line
  94) never meets an empty array.
\<close>

lemma best_actions_nonempty: "row \<noteq> [] \<Longrightarrow> best_actions row \<noteq> []"
proof -
  assume "row \<noteq> []"
  then have "Max (set row) \<in> set row" by (intro Max_in) auto
  then obtain a where "a < length row" "row ! a = Max (set row)"
    by (auto simp: in_set_conv_nth)
  then have "a \<in> set (best_actions row)" by (simp add: best_actions_set)
  then show ?thesis by auto
qed

lemma positive_entry:
  fixes p :: "real list"
  assumes "sum_list p = 1"
  shows "\<exists>a < length p. 0 < p ! a"
proof (rule ccontr)
  assume "\<not> ?thesis"
  then have "\<forall>i < length p. p ! i \<le> 0" by (metis not_less le_less_linear)
  then have "\<forall>x \<in> set p. x \<le> 0" by (auto simp: in_set_conv_nth)
  then have "sum_list p \<le> 0" by (simp add: sum_list_nonpos)
  with assms show False by simp
qed

lemma choice_p_support:
  assumes "choice_p n p t = Inr (a, t')"
  shows "a < n \<and> 0 < p ! a \<and> length p = n \<and> sum_list p = 1"
proof -
  from assms have len: "length p = n" and s: "sum_list p = 1"
    by (auto simp: choice_p_def split: if_splits)
  let ?sup = "filter (\<lambda>a. 0 < p ! a) [0..<n]"
  from positive_entry [OF s] len have ne: "?sup \<noteq> []"
    by (auto simp: filter_empty_conv)
  from assms obtain k where "a = ?sup ! (k mod length ?sup)"
    by (auto simp: choice_p_def Let_def split: if_splits prod.splits)
  moreover from ne have "k mod length ?sup < length ?sup" by simp
  ultimately have "a \<in> set ?sup" using nth_mem by blast
  with len s show ?thesis by auto
qed

lemma choice_p_total:
  assumes "0 < n" and "length p = n" and "\<forall>x \<in> set p. 0 \<le> x" and "sum_list p = 1"
  shows "\<exists>a t'. choice_p n p t = Inr (a, t')"
  using assms by (cases "draw t") (auto simp: choice_p_def Let_def not_less)

subsection \<open>The while loop and the trace\<close>

text \<open>
  An invariant rule for the while loop: what holds before the loop and is kept by every
  iteration holds when the loop ends, and held before the iteration that raised.
\<close>

lemma while_loop_rule:
  assumes run: "while_loop E P c = Some r"
    and init: "I c"
    and step: "\<And>c c'. I c \<Longrightarrow> \<not> is_done c \<Longrightarrow> loop_body E P c = Inr c' \<Longrightarrow> I c'"
  shows "case r of
           Inr c' \<Rightarrow> I c' \<and> is_done c'
         | Inl err \<Rightarrow> \<exists>c1. I c1 \<and> \<not> is_done c1 \<and> loop_body E P c1 = Inl err"
proof -
  define R where "R = (\<lambda>(x :: ('a env_ops \<times> params) \<times> 'a run_state) r.
      fst (fst x) = E \<longrightarrow> snd (fst x) = P \<longrightarrow> I (snd x) \<longrightarrow>
        (case r of
           Inr c' \<Rightarrow> I c' \<and> is_done c'
         | Inl err \<Rightarrow> \<exists>c1. I c1 \<and> \<not> is_done c1 \<and> loop_body E P c1 = Inl err))"
  have "R ((E, P), c) r"
  proof (rule while_loop.raw_induct [where Pa = R, OF _ run])
    fix w :: "'a env_ops \<Rightarrow> params \<Rightarrow> 'a run_state \<Rightarrow> ('a run_state result) option"
    fix E0 P0 c0 r0
    assume IH: "\<And>E1 P1 c1 r1. w E1 P1 c1 = Some r1 \<Longrightarrow> R ((E1, P1), c1) r1"
      and body: "(if \<not> is_done c0
                  then (case loop_body E0 P0 c0 of
                          Inl err \<Rightarrow> Some (Inl err)
                        | Inr c' \<Rightarrow> w E0 P0 c')
                  else Some (Inr c0)) = Some r0"
    show "R ((E0, P0), c0) r0"
      unfolding R_def
    proof (intro impI)
      assume e: "fst (fst ((E0, P0), c0)) = E" and p: "snd (fst ((E0, P0), c0)) = P"
        and i: "I (snd ((E0, P0), c0))"
      then have E0: "E0 = E" and P0: "P0 = P" and I0: "I c0" by simp_all
      show "case r0 of
              Inr c' \<Rightarrow> I c' \<and> is_done c'
            | Inl err \<Rightarrow> \<exists>c1. I c1 \<and> \<not> is_done c1 \<and> loop_body E P c1 = Inl err"
      proof (cases "is_done c0")
        case True
        with body I0 show ?thesis by auto
      next
        case False
        show ?thesis
        proof (cases "loop_body E P c0")
          case (Inl err)
          with False body E0 P0 have "r0 = Inl err" by simp
          with Inl False I0 show ?thesis by auto
        next
          case (Inr c1)
          with False body E0 P0 have "w E P c1 = Some r0" by simp
          from IH [OF this] step [OF I0 False Inr] show ?thesis
            by (simp add: R_def)
        qed
      qed
    qed
  qed
  with init show ?thesis by (simp add: R_def)
qed

lemma while_loop_once:
  assumes "\<not> is_done c" and "loop_body E P c = Inr c'" and "is_done c'"
  shows "while_loop E P c = Some (Inr c')"
proof -
  from assms(3) have "while_loop E P c' = Some (Inr c')"
    by (subst while_loop.simps) simp
  with assms(1,2) show ?thesis
    by (subst while_loop.simps) simp
qed

text \<open>The trace only grows, through every part of the run.\<close>

lemma loop_body_prefix: "prefix (trace c) (result_trace (loop_body E P c))"
  unfolding loop_body_def result_trace_def
  by (auto simp: Let_def split: prod.splits if_splits sum.splits)

lemma begin_episode_prefix: "prefix (trace c) (result_trace (begin_episode E c))"
  unfolding begin_episode_def result_trace_def
  by (auto simp: Let_def split: prod.splits if_splits sum.splits)

lemma while_loop_prefix:
  assumes "while_loop E P c = Some r"
  shows "prefix (trace c) (result_trace r)"
proof -
  have step: "\<And>x x'. prefix (trace c) (trace x) \<Longrightarrow> \<not> is_done x \<Longrightarrow> loop_body E P x = Inr x'
                \<Longrightarrow> prefix (trace c) (trace x')"
  proof -
    fix x x' assume a: "prefix (trace c) (trace x)" and b: "loop_body E P x = Inr x'"
    from loop_body_prefix [of x E P] b have "prefix (trace x) (trace x')"
      by (simp add: result_trace_def)
    with a show "prefix (trace c) (trace x')" by (rule prefix_order.trans)
  qed
  from while_loop_rule [where I = "\<lambda>x. prefix (trace c) (trace x)", OF assms _ step]
  have r: "case r of Inr c' \<Rightarrow> prefix (trace c) (trace c') \<and> is_done c'
           | Inl err \<Rightarrow> \<exists>c1. prefix (trace c) (trace c1) \<and> \<not> is_done c1 \<and> loop_body E P c1 = Inl err"
    by simp
  show ?thesis
  proof (cases r)
    case (Inl err)
    with r obtain c1 where a: "prefix (trace c) (trace c1)" and b: "loop_body E P c1 = Inl err"
      by auto
    from Inl b have "r = loop_body E P c1" by simp
    with a loop_body_prefix [of c1 E P] show ?thesis by (auto intro: prefix_order.trans)
  next
    case (Inr c')
    with r show ?thesis by (simp add: result_trace_def)
  qed
qed

lemma report_trace: "prefix (trace c) (trace (report i c))"
  by (simp add: report_def)

lemma run_episode_prefix:
  assumes "run_episode E P i c = Some r"
  shows "prefix (trace c) (result_trace r)"
proof (cases "begin_episode E c")
  case (Inl err)
  with assms have "r = begin_episode E c" by (simp add: run_episode_def)
  with begin_episode_prefix [of c E] show ?thesis by simp
next
  case (Inr c1)
  with begin_episode_prefix [of c E] have p1: "prefix (trace c) (trace c1)"
    by (simp add: result_trace_def)
  from assms Inr obtain r1 where w: "while_loop E P c1 = Some r1"
    by (auto simp: run_episode_def split: option.splits)
  from while_loop_prefix [OF w] have p2: "prefix (trace c1) (result_trace r1)" .
  show ?thesis
  proof (cases r1)
    case (Inl err)
    with assms Inr w have "r = r1" by (simp add: run_episode_def)
    with p1 p2 show ?thesis by (auto intro: prefix_order.trans)
  next
    case (Inr c2)
    with assms \<open>begin_episode E c = Inr c1\<close> w have "r = Inr (report i c2)"
      by (simp add: run_episode_def)
    moreover from p2 Inr have "prefix (trace c1) (trace c2)" by (simp add: result_trace_def)
    ultimately show ?thesis using p1 report_trace [of c2 i]
      by (auto simp: result_trace_def intro: prefix_order.trans)
  qed
qed

lemma episodes_prefix:
  "episodes E P is c = Some r \<Longrightarrow> prefix (trace c) (result_trace r)"
proof (induction "is" arbitrary: c)
  case Nil
  then show ?case by (auto simp: result_trace_def)
next
  case (Cons i "is")
  from Cons.prems obtain r1 where e: "run_episode E P i c = Some r1"
    by (auto split: option.splits)
  from run_episode_prefix [OF e] have p1: "prefix (trace c) (result_trace r1)" .
  show ?case
  proof (cases r1)
    case (Inl err)
    with Cons.prems e have "r = r1" by simp
    with p1 show ?thesis by simp
  next
    case (Inr c1)
    with Cons.prems e have "episodes E P is c1 = Some r" by simp
    from Cons.IH [OF this] p1 Inr show ?thesis
      by (auto simp: result_trace_def intro: prefix_order.trans)
  qed
qed

lemma initialise_prefix:
  "prefix [EnvCreate, EnvSeed seed] (result_trace (initialise E rnd seed))"
  by (simp add: initialise_def result_trace_def Let_def)

subsection \<open>The invariant of the tables\<close>

lemma updated_states_append [simp]:
  "updated_states (xs @ ys) = updated_states xs @ updated_states ys"
  by (simp add: updated_states_def)

lemma updated_states_simps [simp]:
  "updated_states [] = []"
  "updated_states (QUpdate s a # tr) = s # updated_states tr"
  "updated_states (EnvStep a # tr) = updated_states tr"
  "updated_states (PolicyDerive s # tr) = updated_states tr"
  "updated_states (EnvReset # tr) = updated_states tr"
  "updated_states (Scalar n v i # tr) = updated_states tr"
  "updated_states (EnvCreate # tr) = updated_states tr"
  "updated_states (EnvSeed k # tr) = updated_states tr"
  "updated_states (EnvClose # tr) = updated_states tr"
  by (simp_all add: updated_states_def)

lemma greedy_row_sum:
  fixes row :: "real list"
  assumes len: "length row = A" and b: "b < A"
    and entries: "\<forall>a < A. row ! a = (if a = b then hi else lo)"
  shows "sum_list row = hi + real (A - 1) * lo"
proof -
  let ?f = "\<lambda>a. if a = b then hi else lo"
  from len entries have "row = map ?f [0..<A]"
    by (intro nth_equalityI) simp_all
  then have "sum_list row = sum_list (map ?f [0..<A])" by simp
  also have "\<dots> = sum ?f {0..<A}" by (simp add: interv_sum_list_conv_sum_set_nat)
  also have "\<dots> = ?f b + sum ?f ({0..<A} - {b})"
    using b by (intro sum.remove) simp_all
  also have "sum ?f ({0..<A} - {b}) = sum (\<lambda>a. lo) ({0..<A} - {b})"
    by (intro sum.cong) simp_all
  also have "\<dots> = real (A - 1) * lo" using b by simp
  finally show ?thesis by simp
qed

lemma greedy_row_sum_one:
  fixes row :: "real list"
  assumes "length row = A" and "b < A"
    and "\<forall>a < A. row ! a = (if a = b then 1 - ep + ep / real A else ep / real A)"
  shows "sum_list row = 1"
proof -
  define x where "x = ep / real A"
  from assms(2) have A: "0 < A" by simp
  then have r: "real (A - 1) = real A - 1" by (simp add: of_nat_diff)
  from A have m: "real A * x = ep" by (simp add: x_def)
  have "1 - ep + x + (real A - 1) * x = 1 - ep + real A * x" by (simp add: algebra_simps)
  with m have "1 - ep + x + (real A - 1) * x = 1" by simp
  with greedy_row_sum [OF assms] r show ?thesis by (simp add: x_def)
qed

lemma bounds_order:
  assumes "0 \<le> ep" and "ep \<le> 1" and "0 < A"
  shows "ep / real A \<le> 1 / real A" and "1 / real A \<le> 1 - ep + ep / real A"
    and "ep / real A \<le> 1 - ep + ep / real A"
proof -
  from assms show 1: "ep / real A \<le> 1 / real A" by (simp add: divide_right_mono)
  have "(1 - ep) / real A \<le> (1 - ep) / 1"
    using assms by (intro divide_left_mono) simp_all
  then show 2: "1 / real A \<le> 1 - ep + ep / real A" by (simp add: diff_divide_distrib)
  from 1 2 show "ep / real A \<le> 1 - ep + ep / real A" by simp
qed

lemma run_inv_initialise:
  assumes "0 \<le> epsilon P" and "epsilon P \<le> 1" and "initialise E rnd seed = Inr c"
  shows "run_inv E P c"
proof -
  from assms(3) have A: "0 < act_n E"
    and c: "Q c = replicate (obs_n E) (replicate (act_n E) 0)"
      "pi_tab c = replicate (obs_n E) (replicate (act_n E) (1 / real (act_n E)))"
    by (auto simp: initialise_def Let_def split: if_splits)
  from bounds_order [OF assms(1,2) A] A c show ?thesis
    by (simp add: run_inv_def sum_list_replicate)
qed

lemma run_inv_begin_episode:
  assumes "run_inv E P c" and "begin_episode E c = Inr c'"
  shows "run_inv E P c'"
  using assms(2,1) by (elim begin_episode_Inr) (simp add: run_inv_def)

lemma run_inv_report: "run_inv E P c \<Longrightarrow> run_inv E P (report i c)"
  by (simp add: run_inv_def report_def)

lemma run_inv_loop_body:
  assumes eps: "0 \<le> epsilon P" "epsilon P \<le> 1"
    and inv: "run_inv E P c" and body: "loop_body E P c = Inr c'"
  shows "run_inv E P c'"
  using body
proof (rule loop_body_Inr)
  fix next_action r1 best_action r2 pi' next_state reward d e'
  let ?Q' = "(Q c)[state c := (Q c ! state c)
              [action c := td_update (alpha P) (Q c ! state c ! action c)
                 (reward + gamma P * Q c ! next_state ! next_action)]]"
  assume s0: "state c < length (pi_tab c)" "state c < length (Q c)"
    and ch: "choice_arr (best_actions (?Q' ! state c)) r1 = Inr (best_action, r2)"
    and pl: "policy_loop (epsilon P) (act_n E) (state c) best_action [0..<act_n E] (pi_tab c) = Inr pi'"
    and c': "c' = c\<lparr>env := e', rng := r2, Q := ?Q', pi_tab := pi',
            state := next_state, action := next_action, is_done := d,
            episode_length := episode_length c + 1,
            episode_return := episode_return c + reward,
            trace := trace c @ [EnvStep (action c), QUpdate (state c) (action c), PolicyDerive (state c)]\<rparr>"
  from inv have A: "0 < act_n E" and lenQ: "length (Q c) = obs_n E"
    and rowsQ: "\<forall>row \<in> set (Q c). length row = act_n E"
    and lenpi: "length (pi_tab c) = obs_n E"
    by (simp_all add: run_inv_def)
  from s0 lenpi have sS: "state c < obs_n E" by simp
  from rowsQ s0 have "length (Q c ! state c) = act_n E" by simp
  with s0 have lenrow: "length (?Q' ! state c) = act_n E" by simp
  from choice_arr_member [OF ch] have "best_action < length (?Q' ! state c)"
    by (simp only: best_actions_set) simp
  with lenrow have best: "best_action < act_n E" by simp
  have Q1: "length ?Q' = obs_n E" using lenQ by simp
  have Q2: "\<forall>row \<in> set ?Q'. length row = act_n E"
  proof
    fix row assume "row \<in> set ?Q'"
    then have "row \<in> insert ((Q c ! state c)
              [action c := td_update (alpha P) (Q c ! state c ! action c)
                 (reward + gamma P * Q c ! next_state ! next_action)]) (set (Q c))"
      using set_update_subset_insert by fast
    with rowsQ s0 show "length row = act_n E" by auto
  qed
  from policy_loop_frame [OF pl] have fr: "length pi' = length (pi_tab c)"
    "\<And>s'. s' \<noteq> state c \<Longrightarrow> pi' ! s' = pi_tab c ! s'" by simp_all
  from policy_loop_row [OF pl] have lr: "length (pi' ! state c) = length (pi_tab c ! state c)"
    by simp
  from inv sS have "length (pi_tab c ! state c) = act_n E" by (simp add: run_inv_def)
  with lr have lr': "length (pi' ! state c) = act_n E" by simp
  have ent: "\<forall>a < act_n E. pi' ! state c ! a =
     (if a = best_action then 1 - epsilon P + epsilon P / real (act_n E)
      else epsilon P / real (act_n E))"
    using policy_loop_entries [OF pl] by simp
  from greedy_row_sum_one [OF lr' best ent] have sum1: "sum_list (pi' ! state c) = 1" .
  from bounds_order(3) [OF eps A]
  have bnd: "\<forall>a < act_n E. epsilon P / real (act_n E) \<le> pi' ! state c ! a \<and>
                        pi' ! state c ! a \<le> 1 - epsilon P + epsilon P / real (act_n E)"
    using ent by simp
  have rows: "\<forall>s < obs_n E.
        length (pi' ! s) = act_n E \<and>
        sum_list (pi' ! s) = 1 \<and>
        (\<forall>a < act_n E. epsilon P / real (act_n E) \<le> pi' ! s ! a \<and>
                        pi' ! s ! a \<le> 1 - epsilon P + epsilon P / real (act_n E)) \<and>
        (s \<notin> set (updated_states (trace c')) \<longrightarrow>
           pi' ! s = replicate (act_n E) (1 / real (act_n E)))"
  proof (intro allI impI)
    fix s assume s: "s < obs_n E"
    show "length (pi' ! s) = act_n E \<and>
        sum_list (pi' ! s) = 1 \<and>
        (\<forall>a < act_n E. epsilon P / real (act_n E) \<le> pi' ! s ! a \<and>
                        pi' ! s ! a \<le> 1 - epsilon P + epsilon P / real (act_n E)) \<and>
        (s \<notin> set (updated_states (trace c')) \<longrightarrow>
           pi' ! s = replicate (act_n E) (1 / real (act_n E)))"
    proof (cases "s = state c")
      case True
      with lr' sum1 bnd c' show ?thesis by simp
    next
      case False
      from inv s have "length (pi_tab c ! s) = act_n E \<and>
        sum_list (pi_tab c ! s) = 1 \<and>
        (\<forall>a < act_n E. epsilon P / real (act_n E) \<le> pi_tab c ! s ! a \<and>
                        pi_tab c ! s ! a \<le> 1 - epsilon P + epsilon P / real (act_n E)) \<and>
        (s \<notin> set (updated_states (trace c)) \<longrightarrow>
           pi_tab c ! s = replicate (act_n E) (1 / real (act_n E)))"
        by (simp add: run_inv_def)
      with fr(2) [OF False] c' show ?thesis by simp
    qed
  qed
  from A Q1 Q2 fr(1) lenpi rows c' show ?thesis
    by (simp add: run_inv_def)
qed

lemma points_run_inv:
  assumes "0 \<le> epsilon P" and "epsilon P \<le> 1" and "c \<in> points E P rnd seed"
  shows "run_inv E P c"
  using assms(3)
proof (induction rule: points.induct)
  case (initialised c)
  with assms(1,2) show ?case by (rule run_inv_initialise)
next
  case (episode_begun c c')
  then show ?case by (simp add: run_inv_begin_episode)
next
  case (iterated c c')
  with assms(1,2) show ?case by (simp add: run_inv_loop_body)
next
  case (reported c i)
  then show ?case by (simp add: run_inv_report)
qed

text \<open>Every state a run of \<^verbatim>\<open>sarsa\<close> ends in is a point of the run.\<close>

lemma while_loop_points:
  assumes "while_loop E P c = Some (Inr c')" and "c \<in> points E P rnd seed"
  shows "c' \<in> points E P rnd seed \<and> is_done c'"
  using while_loop_rule [where I = "\<lambda>x. x \<in> points E P rnd seed", OF assms]
  by (simp add: points.iterated)

lemma run_episode_points:
  assumes "run_episode E P i c = Some (Inr c')" and "c \<in> points E P rnd seed"
  shows "c' \<in> points E P rnd seed"
proof -
  from assms(1) obtain c1 c2 where b: "begin_episode E c = Inr c1"
    and w: "while_loop E P c1 = Some (Inr c2)" and c': "c' = report i c2"
    by (auto simp: run_episode_def split: sum.splits option.splits)
  from assms(2) b have "c1 \<in> points E P rnd seed" by (rule points.episode_begun)
  from while_loop_points [OF w this] c' show ?thesis by (simp add: points.reported)
qed

lemma episodes_points:
  "episodes E P is c = Some (Inr c') \<Longrightarrow> c \<in> points E P rnd seed
     \<Longrightarrow> c' \<in> points E P rnd seed"
proof (induction "is" arbitrary: c)
  case Nil
  then show ?case by simp
next
  case (Cons i "is")
  from Cons.prems(1) obtain c1 where e: "run_episode E P i c = Some (Inr c1)"
    and r: "episodes E P is c1 = Some (Inr c')"
    by (auto split: option.splits sum.splits)
  from run_episode_points [OF e Cons.prems(2)] have "c1 \<in> points E P rnd seed" .
  with Cons.IH [OF r] show ?case .
qed

lemma sarsa_points:
  assumes "sarsa env_fn rnd al ep ga num_episodes seed = Some (Inr c)"
  shows "\<exists>c'. c' \<in> points (env_fn ()) \<lparr>alpha = al, epsilon = ep, gamma = ga\<rparr> rnd seed \<and>
              c = c'\<lparr>trace := trace c' @ [EnvClose]\<rparr>"
proof -
  let ?E = "env_fn ()" and ?P = "\<lparr>alpha = al, epsilon = ep, gamma = ga\<rparr>"
  from assms obtain c0 c' where i: "initialise ?E rnd seed = Inr c0"
    and e: "episodes ?E ?P [0..<nat num_episodes] c0 = Some (Inr c')"
    and c: "c = c'\<lparr>trace := trace c' @ [EnvClose]\<rparr>"
    by (auto simp: sarsa_def Let_def split: option.splits sum.splits)
  from i have "c0 \<in> points ?E ?P rnd seed" by (rule points.initialised)
  from episodes_points [OF e this] c show ?thesis by blast
qed

subsection \<open>Steps of the test environment\<close>

lemma sample_step: "loop_body fixture_env fixture_params sample_state = Inr sample_state'"
  by code_simp

lemma tie_step: "loop_body fixture_env tie_params tie_state = Inr tie_state'"
  by code_simp

lemma tie_step_other:
  "loop_body fixture_env tie_params (tie_state\<lparr>rng := [0, 0]\<rparr>) =
     Inr (tie_state'\<lparr>pi_tab := [[3 / 4, 1 / 4], [1 / 2, 1 / 2]]\<rparr>)"
  by code_simp

lemma choice_half:
  obtains a t' where "choice_p 2 [1 / 2, 1 / 2] t = Inr (a, t')" and "a = 0 \<or> a = 1"
proof -
  from choice_p_total [of 2 "[1 / 2, 1 / 2]" t]
  obtain a t' where c: "choice_p 2 [1 / 2, 1 / 2] t = Inr (a, t')" by auto
  from choice_p_support [OF c] have "a < 2" by simp
  then have "a = 0 \<or> a = 1" by auto
  with c that show ?thesis by blast
qed

lemma fixture_initialise: "initialise fixture_env (\<lambda>_. t) seed = Inr (fixture_start t seed)"
proof -
  have "replicate 2 (replicate 2 (0::real)) = [[0, 0], [0, 0]]" by code_simp
  moreover have "replicate 2 (replicate 2 (1 / 2 :: real)) = [[1 / 2, 1 / 2], [1 / 2, 1 / 2]]"
    by code_simp
  ultimately show ?thesis
    by (simp add: initialise_def fixture_env_def fixture_start_def)
qed

lemma fixture_begin:
  assumes "choice_p 2 [1 / 2, 1 / 2] t = Inr (a, t1)"
  shows "begin_episode fixture_env (fixture_start t seed) =
     Inr ((fixture_start t seed)\<lparr>rng := t1, action := a,
            trace := [EnvCreate, EnvSeed seed, EnvReset]\<rparr>)"
  using assms by (simp add: begin_episode_def fixture_env_def fixture_start_def)

lemma tie_begin: "begin_episode fixture_env (fixture_start [1, 0, 1] 0) = Inr tie_state"
  by code_simp

lemma policy_loop_two:
  "policy_loop ep 2 0 b [0..<2] [[x, y], r1] =
     Inr [[if 0 = b then 1 - ep + ep / 2 else ep / 2,
           if 1 = b then 1 - ep + ep / 2 else ep / 2], r1]"
proof -
  have "[0..<2] = [0, 1]" by code_simp
  then show ?thesis by simp
qed

lemma fixture_body_rewarded:
  assumes "choice_p 2 [1 / 2, 1 / 2] t1 = Inr (a1, t2)" and "a1 = 0 \<or> a1 = 1"
    and "choice_arr [0] t2 = Inr (b, t3)"
  shows "loop_body fixture_env fixture_params
     ((fixture_start t seed)\<lparr>rng := t1, action := 0, trace := tr\<rparr>) =
   Inr \<lparr>env = 1, rng = t3,
        Q = [[1 / 2, 0], [0, 0]], pi_tab = [[1, 0], [1 / 2, 1 / 2]],
        state = 1, action = a1, is_done = True,
        episode_length = 1, episode_return = 1,
        trace = tr @ [EnvStep 0, QUpdate 0 0, PolicyDerive 0]\<rparr>"
proof -
  have best: "best_actions [1 / 2, 0] = [0]" by code_simp
  from choice_arr_member [OF assms(3)] have b: "b = 0" by simp
  from assms(2) have z: "[0, 0 :: real] ! a1 = 0" by auto
  from assms(2) have l: "a1 < Suc (Suc 0)" by auto
  show ?thesis
    by (simp add: loop_body_def fixture_env_def fixture_params_def fixture_start_def
        assms(1,3) z l td_update_def best b policy_loop_two)
qed

lemma fixture_body_unrewarded:
  assumes "choice_p 2 [1 / 2, 1 / 2] t1 = Inr (a1, t2)" and "a1 = 0 \<or> a1 = 1"
    and "choice_arr [0, 1] t2 = Inr (b, t3)"
  shows "loop_body fixture_env fixture_params
     ((fixture_start t seed)\<lparr>rng := t1, action := 1, trace := tr\<rparr>) =
   Inr \<lparr>env = 0, rng = t3,
        Q = [[0, 0], [0, 0]],
        pi_tab = [[if b = 0 then 1 else 0, if b = 0 then 0 else 1], [1 / 2, 1 / 2]],
        state = 0, action = a1, is_done = True,
        episode_length = 1, episode_return = 0,
        trace = tr @ [EnvStep 1, QUpdate 0 1, PolicyDerive 0]\<rparr>"
proof -
  have best: "best_actions [0, 0] = [0, 1]" by code_simp
  from assms(2) have z: "[0, 0 :: real] ! a1 = 0" by auto
  from assms(2) have l: "a1 < Suc (Suc 0)" by auto
  from choice_arr_member [OF assms(3)] have "b = 0 \<or> b = 1" by auto
  then show ?thesis
  proof
    assume b: "b = 0"
    with assms(3) have c: "choice_arr [0, 1] t2 = Inr (0, t3)" by simp
    show ?thesis unfolding b using assms(1) c z l
      by (simp add: loop_body_def fixture_env_def fixture_params_def fixture_start_def
          td_update_def best policy_loop_two)
  next
    assume b: "b = 1"
    with assms(3) have c: "choice_arr [0, 1] t2 = Inr (1, t3)" by simp
    show ?thesis unfolding b using assms(1) c z l
      by (simp add: loop_body_def fixture_env_def fixture_params_def fixture_start_def
          td_update_def best policy_loop_two)
  qed
qed

subsection \<open>The update of the Q-table\<close>

text \<open>
  Claim C1. One iteration of the loop body that completes computes
  \<open>target = reward + gamma * Q[next_state, next_action]\<close> from the table as it was and
  replaces \<open>Q[state, action]\<close> by \<open>Q[state, action] + alpha * (target - Q[state, action])\<close>;
  no other entry of the Q-table changes. Here \<open>next_state\<close> and \<open>reward\<close> are what the
  environment returned and \<open>next_action\<close> is the action carried into the next iteration.
\<close>

theorem sarsa_update_rule:
  assumes "loop_body E P c = Inr c'"
  shows "Q c' =
    (let ((next_state, reward, d), e') = env_step E (action c) (env c);
         next_action = action c';
         target = reward + gamma P * Q c ! next_state ! next_action
     in (Q c)[state c := (Q c ! state c)
          [action c := Q c ! state c ! action c + alpha P * (target - Q c ! state c ! action c)]])"
  using assms by (rule loop_body_Inr) (simp add: td_update_def)

theorem sarsa_update_rule_witness:
  "loop_body fixture_env fixture_params sample_state = Inr sample_state' \<and>
   Q sample_state' = [[0 + 1 / 2 * ((1 + 1 * 0) - 0), 0], [0, 0]]"
  using sarsa_update_rule [OF sample_step] sample_step
  by (simp add: sample_state'_def)

subsection \<open>Where the next action comes from\<close>

text \<open>
  Claim C2. In every iteration of the episode loop that completes, \<open>next_action\<close> is
  what the random source returns for the policy row of the state being left,
  \<open>pi[state]\<close>, and so has positive probability in that row. The row of \<open>next_state\<close>
  is not consulted. Every transition of every episode is such an iteration.
\<close>

theorem next_action_from_left_state:
  assumes "loop_body E P c = Inr c'"
  shows "\<exists>r'. choice_p (act_n E) (pi_tab c ! state c) (rng c) = Inr (action c', r')
              \<and> 0 < pi_tab c ! state c ! action c'"
  using assms
proof (rule loop_body_Inr)
  fix next_action r1 best_action r2 pi' next_state reward d e'
  assume ch: "choice_p (act_n E) (pi_tab c ! state c) (rng c) = Inr (next_action, r1)"
    and c': "c' = c\<lparr>env := e', rng := r2,
            Q := (Q c)[state c := (Q c ! state c)
              [action c := td_update (alpha P) (Q c ! state c ! action c)
                 (reward + gamma P * Q c ! next_state ! next_action)]],
            pi_tab := pi',
            state := next_state, action := next_action, is_done := d,
            episode_length := episode_length c + 1,
            episode_return := episode_return c + reward,
            trace := trace c @ [EnvStep (action c), QUpdate (state c) (action c), PolicyDerive (state c)]\<rparr>"
  from c' have "action c' = next_action" by simp
  with ch choice_p_support [OF ch] show ?thesis by auto
qed

theorem next_action_from_left_state_witness:
  "loop_body fixture_env fixture_params sample_state = Inr sample_state' \<and>
   state sample_state = 0 \<and> state sample_state' = 1 \<and> action sample_state' = 0 \<and>
   0 < pi_tab sample_state ! 0 ! 0 \<and> pi_tab sample_state ! 1 ! 0 = 0"
  using next_action_from_left_state [OF sample_step] sample_step
  by (simp add: sample_state_def sample_state'_def)

subsection \<open>The derivation of a policy row\<close>

text \<open>
  Claim C3. After the update of \<open>Q[state]\<close>, the greedy action is what the run's random
  source returns, on the tape left by the draw of \<open>next_action\<close>, for the array of the
  actions whose value equals the maximum of the row under exact equality, and the tape
  moves on by that draw. So the greedy action is a member of the tied set whatever the
  tape holds, and which member it is depends on the tape alone. It receives probability
  \<open>1 - epsilon + epsilon / A\<close> and every other action \<open>epsilon / A\<close>. That numpy's
  choice among the tied actions is uniform is a property of numpy and is not part of the
  statement.
\<close>

theorem greedy_policy_row:
  assumes "loop_body E P c = Inr c'"
  shows "\<exists>r1 best_action.
           choice_p (act_n E) (pi_tab c ! state c) (rng c) = Inr (action c', r1) \<and>
           choice_arr (best_actions (Q c' ! state c)) r1 = Inr (best_action, rng c') \<and>
           best_action \<in> {a. a < length (Q c' ! state c) \<and>
                              Q c' ! state c ! a = Max (set (Q c' ! state c))} \<and>
           (\<forall>a < act_n E. pi_tab c' ! state c ! a =
              (if a = best_action then 1 - epsilon P + epsilon P / real (act_n E)
               else epsilon P / real (act_n E)))"
  using assms
proof (rule loop_body_Inr)
  fix next_action r1 best_action r2 pi' next_state reward d e'
  let ?Q' = "(Q c)[state c := (Q c ! state c)
              [action c := td_update (alpha P) (Q c ! state c ! action c)
                 (reward + gamma P * Q c ! next_state ! next_action)]]"
  assume cp: "choice_p (act_n E) (pi_tab c ! state c) (rng c) = Inr (next_action, r1)"
    and ch: "choice_arr (best_actions (?Q' ! state c)) r1 = Inr (best_action, r2)"
    and pl: "policy_loop (epsilon P) (act_n E) (state c) best_action [0..<act_n E] (pi_tab c) = Inr pi'"
    and c': "c' = c\<lparr>env := e', rng := r2, Q := ?Q', pi_tab := pi',
            state := next_state, action := next_action, is_done := d,
            episode_length := episode_length c + 1,
            episode_return := episode_return c + reward,
            trace := trace c @ [EnvStep (action c), QUpdate (state c) (action c), PolicyDerive (state c)]\<rparr>"
  from c' have q: "Q c' = ?Q'" and p: "pi_tab c' = pi'" and a: "action c' = next_action"
    and r: "rng c' = r2" by simp_all
  from cp a have cp': "choice_p (act_n E) (pi_tab c ! state c) (rng c) = Inr (action c', r1)"
    by simp
  from ch have ch': "choice_arr (best_actions (Q c' ! state c)) r1 = Inr (best_action, rng c')"
    by (simp only: q r)
  from choice_arr_member [OF ch'] have "best_action \<in> set (best_actions (Q c' ! state c))" .
  then have mem: "best_action \<in> {a. a < length (Q c' ! state c) \<and>
                              Q c' ! state c ! a = Max (set (Q c' ! state c))}"
    by (simp only: best_actions_set)
  from policy_loop_entries [OF pl] p
  have "\<forall>a < act_n E. pi_tab c' ! state c ! a =
              (if a = best_action then 1 - epsilon P + epsilon P / real (act_n E)
               else epsilon P / real (act_n E))" by simp
  with cp' ch' mem show ?thesis by blast
qed

theorem greedy_policy_row_witness:
  "loop_body fixture_env tie_params tie_state = Inr tie_state' \<and>
   rng tie_state = [0, 1] \<and>
   choice_p 2 (pi_tab tie_state ! 0) [0, 1] = Inr (action tie_state', [1]) \<and>
   best_actions (Q tie_state' ! 0) = [0, 1] \<and>
   choice_arr [0, 1] [1] = Inr (1, rng tie_state') \<and>
   pi_tab tie_state' ! 0 = [1 / 2 / 2, 1 - 1 / 2 + 1 / 2 / 2] \<and>
   loop_body fixture_env tie_params (tie_state\<lparr>rng := [0, 0]\<rparr>) =
     Inr (tie_state'\<lparr>pi_tab := [[3 / 4, 1 / 4], [1 / 2, 1 / 2]]\<rparr>) \<and>
   choice_arr [0, 1] [0] = Inr (0, []) \<and>
   [3 / 4, 1 / 4] = [1 - 1 / 2 + 1 / 2 / 2, 1 / 2 / (2::real)]"
proof -
  have "rng tie_state = [0, 1]" by (simp add: tie_state_def)
  moreover have "choice_p 2 (pi_tab tie_state ! 0) [0, 1] = Inr (action tie_state', [1])"
    by code_simp
  moreover have "best_actions (Q tie_state' ! 0) = [0, 1]" by code_simp
  moreover have "choice_arr [0, 1] [1] = Inr (1, rng tie_state')" by code_simp
  moreover have "choice_arr [0, 1] [0] = Inr (0, [])" by code_simp
  moreover have "pi_tab tie_state' ! 0 = [1 / 2 / 2, 1 - 1 / 2 + 1 / 2 / 2]"
    by (simp add: tie_state'_def)
  ultimately show ?thesis
    using greedy_policy_row [OF tie_step] greedy_policy_row [OF tie_step_other]
      tie_step tie_step_other by simp
qed

subsection \<open>The policy table at every point of a run\<close>

text \<open>
  Claim C4. At every point of a run with \<open>epsilon\<close> in \<open>[0, 1]\<close> (which validation
  ensures) and for every state \<open>s\<close>: the policy row of \<open>s\<close> sums to 1, each of its
  entries lies between \<open>epsilon / A\<close> and \<open>1 - epsilon + epsilon / A\<close>, and if the Q-row
  of \<open>s\<close> has never been updated the row still is the initial one, \<open>1 / A\<close> in every
  entry. The sum is exact, the numbers being reals.
\<close>

theorem policy_rows_are_distributions:
  assumes "0 \<le> epsilon P" and "epsilon P \<le> 1"
    and "c \<in> points E P rnd seed" and "s < obs_n E"
  shows "sum_list (pi_tab c ! s) = 1 \<and>
         (\<forall>a < act_n E. epsilon P / real (act_n E) \<le> pi_tab c ! s ! a \<and>
                         pi_tab c ! s ! a \<le> 1 - epsilon P + epsilon P / real (act_n E)) \<and>
         (s \<notin> set (updated_states (trace c)) \<longrightarrow>
            pi_tab c ! s = replicate (act_n E) (1 / real (act_n E)))"
  using points_run_inv [OF assms(1-3)] assms(4) by (simp add: run_inv_def)

theorem policy_rows_are_distributions_witness:
  "0 \<le> epsilon tie_params \<and> epsilon tie_params \<le> 1 \<and>
   tie_state' \<in> points fixture_env tie_params (\<lambda>_. [1, 0, 1]) 0 \<and>
   sum_list (pi_tab tie_state' ! 0) = 1 \<and>
   pi_tab tie_state' ! 0 = [1 / 4, 3 / 4] \<and>
   updated_states (trace tie_state') = [0] \<and>
   pi_tab tie_state' ! 1 = replicate 2 (1 / 2)"
proof -
  have e: "0 \<le> epsilon tie_params" "epsilon tie_params \<le> 1" by (simp_all add: tie_params_def)
  have "fixture_start [1, 0, 1] 0 \<in> points fixture_env tie_params (\<lambda>_. [1, 0, 1]) 0"
    using fixture_initialise by (rule points.initialised)
  then have "tie_state \<in> points fixture_env tie_params (\<lambda>_. [1, 0, 1]) 0"
    using tie_begin by (rule points.episode_begun)
  moreover have "\<not> is_done tie_state" by (simp add: tie_state_def)
  ultimately have p: "tie_state' \<in> points fixture_env tie_params (\<lambda>_. [1, 0, 1]) 0"
    using tie_step by (rule points.iterated)
  have u: "updated_states (trace tie_state') = [0]" by (simp add: tie_state'_def)
  have r: "replicate 2 (1 / 2 :: real) = [1 / 2, 1 / 2]" by code_simp
  from policy_rows_are_distributions [OF e p, of 0] policy_rows_are_distributions [OF e p, of 1]
    e p u r
  show ?thesis by (simp add: fixture_env_def tie_state'_def)
qed

subsection \<open>Validation\<close>

text \<open>
  Claim C5. When a parameter violates \<open>alpha > 0\<close>, \<open>epsilon\<close> in \<open>[0, 1]\<close>, \<open>gamma\<close> in
  \<open>[0, 1]\<close> or \<open>num_episodes > 0\<close>, the run ends with an assertion error and an empty
  trace: the environment was not created, seeded, reset or stepped, and no table was
  built or changed. The cases \<open>num_episodes = 0\<close>, \<open>alpha = 0\<close>, \<open>epsilon = -0.1\<close>
  and \<open>gamma = 1.5\<close> are instances.
\<close>

theorem invalid_parameters_rejected:
  assumes "\<not> (0 < al \<and> 0 \<le> ep \<and> ep \<le> 1 \<and> 0 \<le> ga \<and> ga \<le> 1 \<and> 0 < num_episodes)"
  shows "\<exists>msg. sarsa env_fn rnd al ep ga num_episodes seed = Some (Inl (AssertionError msg, []))"
  using assms by (auto simp: sarsa_def validate_def)

theorem invalid_parameters_rejected_witness:
  "sarsa (\<lambda>_. fixture_env) (\<lambda>_. []) (1 / 2) 0 1 0 0
     = Some (Inl (AssertionError ''num_episodes must be positive'', [])) \<and>
   sarsa (\<lambda>_. fixture_env) (\<lambda>_. []) 0 0 1 1 0
     = Some (Inl (AssertionError ''epsilon must be in (0, 1]'', [])) \<and>
   sarsa (\<lambda>_. fixture_env) (\<lambda>_. []) (1 / 2) (- 1 / 10) 1 1 0
     = Some (Inl (AssertionError ''epsilon must be in [0, 1]'', [])) \<and>
   sarsa (\<lambda>_. fixture_env) (\<lambda>_. []) (1 / 2) 0 (3 / 2) 1 0
     = Some (Inl (AssertionError ''gamma must be in [0, 1]'', []))"
  using invalid_parameters_rejected [of "1 / 2" 0 1 0 "\<lambda>_. fixture_env" "\<lambda>_. []" 0]
    invalid_parameters_rejected [of 0 0 1 1 "\<lambda>_. fixture_env" "\<lambda>_. []" 0]
    invalid_parameters_rejected [of "1 / 2" "- 1 / 10" 1 1 "\<lambda>_. fixture_env" "\<lambda>_. []" 0]
    invalid_parameters_rejected [of "1 / 2" 0 "3 / 2" 1 "\<lambda>_. fixture_env" "\<lambda>_. []" 0]
  by (simp add: sarsa_def validate_def)

subsection \<open>The update as a step toward the target\<close>


text \<open>Without rounding the float64 evaluation of line 90 is the exact one.\<close>

lemma fl_update_exact: "fl_update (\<lambda>x. x) al q target = td_update al q target"
  by (simp add: fl_update_def td_update_def)


text \<open>Evaluation of the binary64 rounding at given numbers.\<close>

lemmas round64_eval = round64_def exponent_def exp_up.simps exp_down.simps pow2_def
  round_even_def Let_def

lemma round64_tenth: "round64 (1 / 10) = 3602879701896397 / 2 ^ 55"
  by (simp add: round64_eval)




text \<open>
  Where an operation rounds, the exact step is not what float64 stores. Between 1 and
  its successor \<open>1 + 2^-52\<close> the half step rounds back to the old value; from
  \<open>10^16\<close> toward 1 with \<open>alpha = 1\<close> the difference rounds to \<open>-10^16\<close> and the
  update stores 0, not the target. All four numbers are stored float64 values.
\<close>

lemma rounding_keeps_old_value:
  "round64 1 = 1 \<and> round64 (1 + 1 / 2 ^ 52) = 1 + 1 / 2 ^ 52 \<and>
   fl_update round64 (1 / 2) 1 (1 + 1 / 2 ^ 52) = 1 \<and>
   \<not> exact_at round64 (1 / 2) 1 (1 + 1 / 2 ^ 52)"
  by (simp add: fl_update_def exact_at_def round64_eval)

lemma rounding_misses_target:
  "round64 (10 ^ 16) = 10 ^ 16 \<and> round64 1 = 1 \<and>
   fl_update round64 1 (10 ^ 16) 1 = 0 \<and>
   \<not> exact_at round64 1 (10 ^ 16) 1"
  by (simp add: fl_update_def exact_at_def round64_eval)

subsection \<open>Only one row is rewritten\<close>

text \<open>
  Claim C7. The derivation inside the loop body rewrites the policy row of \<open>state\<close>,
  the state whose Q-row was just updated, and nothing else: every other policy row and
  every other Q-row is as before, the table keeps its number of rows, and the iteration
  performs exactly one update and one derivation, both for \<open>state\<close>.
\<close>

theorem derivation_frame:
  assumes "loop_body E P c = Inr c'"
  shows "length (pi_tab c') = length (pi_tab c) \<and>
         (\<forall>s'. s' \<noteq> state c \<longrightarrow> pi_tab c' ! s' = pi_tab c ! s') \<and>
         (\<forall>s'. s' \<noteq> state c \<longrightarrow> Q c' ! s' = Q c ! s') \<and>
         trace c' = trace c @
           [EnvStep (action c), QUpdate (state c) (action c), PolicyDerive (state c)]"
  using assms
proof (rule loop_body_Inr)
  fix next_action r1 best_action r2 pi' next_state reward d e'
  let ?Q' = "(Q c)[state c := (Q c ! state c)
              [action c := td_update (alpha P) (Q c ! state c ! action c)
                 (reward + gamma P * Q c ! next_state ! next_action)]]"
  assume pl: "policy_loop (epsilon P) (act_n E) (state c) best_action [0..<act_n E] (pi_tab c) = Inr pi'"
    and c': "c' = c\<lparr>env := e', rng := r2, Q := ?Q', pi_tab := pi',
            state := next_state, action := next_action, is_done := d,
            episode_length := episode_length c + 1,
            episode_return := episode_return c + reward,
            trace := trace c @ [EnvStep (action c), QUpdate (state c) (action c), PolicyDerive (state c)]\<rparr>"
  from policy_loop_frame [OF pl] c' show ?thesis by simp
qed

theorem derivation_frame_witness:
  "loop_body fixture_env fixture_params sample_state = Inr sample_state' \<and>
   state sample_state = 0 \<and>
   pi_tab sample_state' ! 1 = pi_tab sample_state ! 1 \<and>
   Q sample_state' ! 1 = Q sample_state ! 1 \<and>
   trace sample_state' = trace sample_state @ [EnvStep 0, QUpdate 0 0, PolicyDerive 0]"
  using derivation_frame [OF sample_step] sample_step
  by (simp add: sample_state_def sample_state'_def)

subsection \<open>One episode against the test environment\<close>

text \<open>
  Claim C8, as amended. One episode with \<open>alpha = 1/2\<close>, \<open>gamma = 1\<close>, \<open>epsilon = 0\<close>
  against the test environment always completes and reports episode length 1, whatever
  the random source does. The first action is drawn from the initial uniform policy, for
  which \<open>epsilon\<close> plays no role. If it is 0, then \<open>Q[0,0]\<close> becomes \<open>1/2\<close> and the
  reported return is 1; if it is 1, \<open>Q[0,0]\<close> stays 0 and the reported return is 0.
\<close>

theorem fixture_episode:
  "\<exists>c a0 t'. choice_p 2 [1 / 2, 1 / 2] t = Inr (a0, t') \<and>
     sarsa (\<lambda>_. fixture_env) (\<lambda>_. t) (1 / 2) 0 1 1 seed = Some (Inr c) \<and>
     Q c ! 0 ! 0 = (if a0 = 0 then 1 / 2 else 0) \<and>
     trace c = [EnvCreate, EnvSeed seed, EnvReset, EnvStep a0, QUpdate 0 a0, PolicyDerive 0,
                Scalar ''episode_length'' 1 0,
                Scalar ''episode_return'' (if a0 = 0 then 1 else 0) 0, EnvClose]"
proof -
  let ?P = "\<lparr>alpha = 1 / 2, epsilon = 0, gamma = 1\<rparr>"
  have P: "?P = fixture_params" by (simp add: fixture_params_def)
  obtain a0 t1 where c0: "choice_p 2 [1 / 2, 1 / 2] t = Inr (a0, t1)" and a0: "a0 = 0 \<or> a0 = 1"
    by (rule choice_half)
  obtain a1 t2 where c1: "choice_p 2 [1 / 2, 1 / 2] t1 = Inr (a1, t2)" and a1: "a1 = 0 \<or> a1 = 1"
    by (rule choice_half)
  let ?c1 = "(fixture_start t seed)\<lparr>rng := t1, action := a0,
            trace := [EnvCreate, EnvSeed seed, EnvReset]\<rparr>"
  have nd: "\<not> is_done ?c1" by (simp add: fixture_start_def)
  have v: "validate (1 / 2) 0 1 1 = None" by (simp add: validate_def)
  from a0 show ?thesis
  proof
    assume z: "a0 = 0"
    obtain b t3 where c2: "choice_arr [0] t2 = Inr (b, t3)"
      using choice_arr_total [of "[0]" t2] by auto
    let ?c2 = "\<lparr>env = 1, rng = t3,
        Q = [[1 / 2, 0], [0, 0]], pi_tab = [[1, 0], [1 / 2, 1 / 2]],
        state = 1, action = a1, is_done = True,
        episode_length = 1, episode_return = 1,
        trace = [EnvCreate, EnvSeed seed, EnvReset] @ [EnvStep 0, QUpdate 0 0, PolicyDerive 0]\<rparr>"
    from fixture_body_rewarded [OF c1 a1 c2] z
    have "loop_body fixture_env fixture_params ?c1 = Inr ?c2" by simp
    from while_loop_once [OF nd this]
    have "while_loop fixture_env fixture_params ?c1 = Some (Inr ?c2)" by simp
    with fixture_begin [OF c0]
    have "run_episode fixture_env fixture_params 0 (fixture_start t seed) =
            Some (Inr (report 0 ?c2))"
      by (simp add: run_episode_def)
    then have "sarsa (\<lambda>_. fixture_env) (\<lambda>_. t) (1 / 2) 0 1 1 seed =
            Some (Inr ((report 0 ?c2)\<lparr>trace := trace (report 0 ?c2) @ [EnvClose]\<rparr>))"
      by (simp add: sarsa_def v P fixture_initialise report_def)
    with c0 z show ?thesis by (simp add: report_def)
  next
    assume z: "a0 = 1"
    obtain b t3 where c2: "choice_arr [0, 1] t2 = Inr (b, t3)"
      using choice_arr_total [of "[0, 1]" t2] by auto
    let ?c2 = "\<lparr>env = 0, rng = t3,
        Q = [[0, 0], [0, 0]],
        pi_tab = [[if b = 0 then 1 else 0, if b = 0 then 0 else 1], [1 / 2, 1 / 2]],
        state = 0, action = a1, is_done = True,
        episode_length = 1, episode_return = 0,
        trace = [EnvCreate, EnvSeed seed, EnvReset] @ [EnvStep 1, QUpdate 0 1, PolicyDerive 0]\<rparr>"
    from fixture_body_unrewarded [OF c1 a1 c2] z
    have "loop_body fixture_env fixture_params ?c1 = Inr ?c2" by simp
    from while_loop_once [OF nd this]
    have "while_loop fixture_env fixture_params ?c1 = Some (Inr ?c2)" by simp
    with fixture_begin [OF c0]
    have "run_episode fixture_env fixture_params 0 (fixture_start t seed) =
            Some (Inr (report 0 ?c2))"
      by (simp add: run_episode_def)
    then have "sarsa (\<lambda>_. fixture_env) (\<lambda>_. t) (1 / 2) 0 1 1 seed =
            Some (Inr ((report 0 ?c2)\<lparr>trace := trace (report 0 ?c2) @ [EnvClose]\<rparr>))"
      by (simp add: sarsa_def v P fixture_initialise report_def)
    with c0 z show ?thesis by (simp add: report_def)
  qed
qed

theorem fixture_episode_witness:
  "choice_p 2 [1 / 2, 1 / 2] [] = Inr (0, []) \<and>
   sarsa (\<lambda>_. fixture_env) (\<lambda>_. []) (1 / 2) 0 1 1 0 = Some (Inr rewarded_run) \<and>
   Q rewarded_run ! 0 ! 0 = 1 / 2 \<and>
   trace rewarded_run =
     [EnvCreate, EnvSeed 0, EnvReset, EnvStep 0, QUpdate 0 0, PolicyDerive 0,
      Scalar ''episode_length'' 1 0, Scalar ''episode_return'' 1 0, EnvClose]"
proof -
  have a: "choice_p 2 [1 / 2, 1 / 2] [] = Inr (0, [])" by code_simp
  have b: "sarsa (\<lambda>_. fixture_env) (\<lambda>_. []) (1 / 2) 0 1 1 0 = Some (Inr rewarded_run)"
    by code_simp
  from fixture_episode [of "[]" 0] a b show ?thesis
    by (simp add: rewarded_run_def)
qed

text \<open>
  The claim as first stated fails when the random source draws action 1 first, which it
  does with probability \<open>1/2\<close>: the transition pays nothing, \<open>Q[0,0]\<close> is not touched
  and the reported return is 0.
\<close>

theorem fixture_episode_counterexample:
  "choice_p 2 [1 / 2, 1 / 2] [1] = Inr (1, []) \<and>
   sarsa (\<lambda>_. fixture_env) (\<lambda>_. [1]) (1 / 2) 0 1 1 0 = Some (Inr unrewarded_run) \<and>
   Q unrewarded_run ! 0 ! 0 = 0 \<and> Q unrewarded_run ! 0 ! 0 \<noteq> 1 / 2 \<and>
   trace unrewarded_run =
     [EnvCreate, EnvSeed 0, EnvReset, EnvStep 1, QUpdate 0 1, PolicyDerive 0,
      Scalar ''episode_length'' 1 0, Scalar ''episode_return'' 0 0, EnvClose]"
proof -
  have "choice_p 2 [1 / 2, 1 / 2] [1] = Inr (1, [])" by code_simp
  moreover have "sarsa (\<lambda>_. fixture_env) (\<lambda>_. [1]) (1 / 2) 0 1 1 0 = Some (Inr unrewarded_run)"
    by code_simp
  ultimately show ?thesis by (simp add: unrewarded_run_def)
qed

subsection \<open>No upper bound on the step size\<close>

text \<open>
  Claim C9. For every \<open>alpha > 1\<close> with \<open>epsilon\<close> and \<open>gamma\<close> in \<open>[0, 1]\<close> and
  \<open>num_episodes > 0\<close>, validation passes, and the run starts: whatever its outcome, the
  environment has been created and seeded first.
\<close>

theorem no_upper_bound_on_alpha:
  assumes "1 < al" and "0 \<le> ep" and "ep \<le> 1" and "0 \<le> ga" and "ga \<le> 1"
    and "0 < num_episodes"
  shows "validate al ep ga num_episodes = None \<and>
         (\<forall>r. sarsa env_fn rnd al ep ga num_episodes seed = Some r \<longrightarrow>
              prefix [EnvCreate, EnvSeed seed] (result_trace r))"
proof
  from assms show v: "validate al ep ga num_episodes = None" by (simp add: validate_def)
  show "\<forall>r. sarsa env_fn rnd al ep ga num_episodes seed = Some r \<longrightarrow>
              prefix [EnvCreate, EnvSeed seed] (result_trace r)"
  proof (intro allI impI)
    fix r assume run: "sarsa env_fn rnd al ep ga num_episodes seed = Some r"
    let ?E = "env_fn ()" and ?P = "\<lparr>alpha = al, epsilon = ep, gamma = ga\<rparr>"
    show "prefix [EnvCreate, EnvSeed seed] (result_trace r)"
    proof (cases "initialise ?E rnd seed")
      case (Inl err)
      with run v have "r = initialise ?E rnd seed" by (simp add: sarsa_def)
      with initialise_prefix [of seed ?E rnd] show ?thesis by simp
    next
      case (Inr c0)
      with initialise_prefix [of seed ?E rnd]
      have p0: "prefix [EnvCreate, EnvSeed seed] (trace c0)" by (simp add: result_trace_def)
      from run v Inr obtain r1 where e: "episodes ?E ?P [0..<nat num_episodes] c0 = Some r1"
        by (auto simp: sarsa_def Let_def split: option.splits)
      from episodes_prefix [OF e] p0
      have p1: "prefix [EnvCreate, EnvSeed seed] (result_trace r1)"
        by (rule prefix_order.trans [rotated])
      show ?thesis
      proof (cases r1)
        case (Inl err)
        with run v \<open>initialise ?E rnd seed = Inr c0\<close> e have "r = r1"
          by (simp add: sarsa_def Let_def)
        with p1 show ?thesis by simp
      next
        case (Inr c1)
        with run v \<open>initialise ?E rnd seed = Inr c0\<close> e
        have "r = Inr (c1\<lparr>trace := trace c1 @ [EnvClose]\<rparr>)"
          by (simp add: sarsa_def Let_def)
        with p1 Inr show ?thesis by (auto simp: result_trace_def intro: prefix_order.trans)
      qed
    qed
  qed
qed

theorem no_upper_bound_on_alpha_witness:
  "(1::real) < 2 \<and> validate 2 0 1 1 = None \<and>
   sarsa (\<lambda>_. fixture_env) (\<lambda>_. []) 2 0 1 1 0 = Some (Inr overshoot_run) \<and>
   prefix [EnvCreate, EnvSeed 0] (result_trace (Inr overshoot_run :: nat run_state result)) \<and>
   Q overshoot_run ! 0 ! 0 = 2"
proof -
  have run: "sarsa (\<lambda>_. fixture_env) (\<lambda>_. []) 2 0 1 1 0 = Some (Inr overshoot_run)"
    by code_simp
  from no_upper_bound_on_alpha [of 2 0 1 1 "\<lambda>_. fixture_env" "\<lambda>_. []" 0] run
  show ?thesis by (simp add: overshoot_run_def)
qed

subsection \<open>Every episode runs the body once\<close>

text \<open>
  Claim C10. An episode that completes has stepped the environment and updated the
  Q-table at least once, right after the reset, and reports an episode length of at least
  1. This holds for every environment, so also for one that signals termination on its
  first step.
\<close>

theorem episode_runs_body_once:
  assumes "run_episode E P i c = Some (Inr c')"
  shows "1 \<le> episode_length c' \<and>
         (\<exists>a s tr. trace c' = trace c @ [EnvReset, EnvStep a, QUpdate s a, PolicyDerive s] @ tr @
            [Scalar ''episode_length'' (real (episode_length c')) i,
             Scalar ''episode_return'' (episode_return c') i])"
proof -
  from assms obtain c1 c2 where b: "begin_episode E c = Inr c1"
    and w: "while_loop E P c1 = Some (Inr c2)" and c': "c' = report i c2"
    by (auto simp: run_episode_def split: sum.splits option.splits)
  from b have c1: "\<not> is_done c1" "trace c1 = trace c @ [EnvReset]"
    by (auto elim!: begin_episode_Inr)
  from w c1(1) obtain c1' where lb: "loop_body E P c1 = Inr c1'"
    and w': "while_loop E P c1' = Some (Inr c2)"
    by (subst (asm) while_loop.simps) (auto split: sum.splits)
  from lb have t1: "trace c1' = trace c1 @
       [EnvStep (action c1), QUpdate (state c1) (action c1), PolicyDerive (state c1)]"
    and l1: "episode_length c1' = episode_length c1 + 1"
    by (auto elim!: loop_body_Inr)
  have step: "\<And>x x'. prefix (trace c1') (trace x) \<and> 1 \<le> episode_length x \<Longrightarrow> \<not> is_done x \<Longrightarrow>
                loop_body E P x = Inr x' \<Longrightarrow> prefix (trace c1') (trace x') \<and> 1 \<le> episode_length x'"
  proof -
    fix x x' assume a: "prefix (trace c1') (trace x) \<and> 1 \<le> episode_length x"
      and bd: "loop_body E P x = Inr x'"
    from loop_body_prefix [of x E P] bd have "prefix (trace x) (trace x')"
      by (simp add: result_trace_def)
    with a have "prefix (trace c1') (trace x')" by (auto intro: prefix_order.trans)
    moreover from loop_body_length [OF bd] a have "1 \<le> episode_length x'" by simp
    ultimately show "prefix (trace c1') (trace x') \<and> 1 \<le> episode_length x'" ..
  qed
  from l1 have i0: "prefix (trace c1') (trace c1') \<and> 1 \<le> episode_length c1'" by simp
  from while_loop_rule [where I = "\<lambda>x. prefix (trace c1') (trace x) \<and> 1 \<le> episode_length x",
      OF w' i0 step]
  have "prefix (trace c1') (trace c2)" and len: "1 \<le> episode_length c2" by simp_all
  then obtain tr where "trace c2 = trace c1' @ tr" by (auto simp: prefix_def)
  with t1 c1(2) c' len show ?thesis by (auto simp: report_def)
qed

theorem episode_runs_body_once_witness:
  "run_episode fixture_env fixture_params 0
     (sample_state\<lparr>rng := [0, 0, 1], trace := [EnvCreate, EnvSeed 0]\<rparr>)
     = Some (Inr (report 0 sample_state')) \<and>
   episode_length (report 0 sample_state') = 1 \<and>
   trace (report 0 sample_state') =
     [EnvCreate, EnvSeed 0] @ [EnvReset, EnvStep 0, QUpdate 0 0, PolicyDerive 0] @ [] @
     [Scalar ''episode_length'' 1 0, Scalar ''episode_return'' 1 0]"
proof -
  have run: "run_episode fixture_env fixture_params 0
     (sample_state\<lparr>rng := [0, 0, 1], trace := [EnvCreate, EnvSeed 0]\<rparr>)
     = Some (Inr (report 0 sample_state'))"
    by code_simp
  from episode_runs_body_once [OF run] run show ?thesis
    by (simp add: report_def sample_state'_def)
qed

end
